theory Spec2Isabelle
  imports Main
begin

section \<open>The event monitor and readiness poller of pkg/events/monitor.go\<close>

subsection \<open>Unstructured status documents\<close>

text \<open>
  The dynamic client returns a resource as \<^verbatim>\<open>map[string]interface{}\<close>, the decoded JSON
  of the object. A value is null, a boolean, a number, a string, a slice or a map; a Go
  map is an association list read with \<open>map_of\<close>.
\<close>

datatype jvalue =
    JNull
  | JBool bool
  | JNumber int
  | JString string
  | JSlice "jvalue list"
  | JMap "(string \<times> jvalue) list"

text \<open>
  The accessors of \<^verbatim>\<open>k8s.io/apimachinery/pkg/apis/meta/v1/unstructured\<close> that
  \<^verbatim>\<open>checkResourceReady\<close> calls. They belong to the Kubernetes library, not to this
  repository; they are written here after the library: each returns the value, whether it
  was found, and an error when a value on the path has the wrong type.
\<close>

datatype accessor_error = AccessorError

fun NestedFieldNoCopy :: "jvalue \<Rightarrow> string list \<Rightarrow> jvalue \<times> bool \<times> accessor_error option" where
  "NestedFieldNoCopy val [] = (val, True, None)"
| "NestedFieldNoCopy val (field # fields) =
     (case val of
        JNull \<Rightarrow> (JNull, False, None)
      | JMap m \<Rightarrow>
          (case map_of m field of
             None \<Rightarrow> (JNull, False, None)
           | Some v \<Rightarrow> NestedFieldNoCopy v fields)
      | _ \<Rightarrow> (JNull, False, Some AccessorError))"

definition NestedMap ::
  "(string \<times> jvalue) list \<Rightarrow> string list \<Rightarrow> (string \<times> jvalue) list \<times> bool \<times> accessor_error option" where
  "NestedMap obj fields =
     (case NestedFieldNoCopy (JMap obj) fields of
        (val, found, err) \<Rightarrow>
          if \<not> found \<or> err \<noteq> None then ([], found, err)
          else (case val of
                  JMap m \<Rightarrow> (m, True, None)
                | _ \<Rightarrow> ([], False, Some AccessorError)))"

definition NestedSlice ::
  "(string \<times> jvalue) list \<Rightarrow> string list \<Rightarrow> jvalue list \<times> bool \<times> accessor_error option" where
  "NestedSlice obj fields =
     (case NestedFieldNoCopy (JMap obj) fields of
        (val, found, err) \<Rightarrow>
          if \<not> found \<or> err \<noteq> None then ([], found, err)
          else (case val of
                  JSlice xs \<Rightarrow> (xs, True, None)
                | _ \<Rightarrow> ([], False, Some AccessorError)))"

definition NestedString ::
  "(string \<times> jvalue) list \<Rightarrow> string list \<Rightarrow> string \<times> bool \<times> accessor_error option" where
  "NestedString obj fields =
     (case NestedFieldNoCopy (JMap obj) fields of
        (val, found, err) \<Rightarrow>
          if \<not> found \<or> err \<noteq> None then ([], found, err)
          else (case val of
                  JString s \<Rightarrow> (s, True, None)
                | _ \<Rightarrow> ([], False, Some AccessorError)))"

subsection \<open>The monitor\<close>

text \<open>
  The fields of \<^verbatim>\<open>Monitor\<close> that the functions below read or write. The two clients,
  the context and the mutexes are the outside world: what the clients return is an
  argument of each function, and the functions run one at a time, so that the lock around
  \<^verbatim>\<open>lastHash\<close> has nothing to exclude.
\<close>

record Monitor =
  kind :: string
  name :: string
  namespace :: string
  lastHash :: string
  ready :: bool

subsection \<open>The readiness check\<close>

record GroupVersionResource =
  Group :: string
  Version :: string
  Resource :: string

text \<open>
  What \<^verbatim>\<open>dynamicClient.Resource(gvr).Namespace(ns).Get(ctx, name, ...)\<close> hands back: an
  error, or the object's \<^verbatim>\<open>Object\<close> map. The cluster is a function of the coordinates
  the call is made with.
\<close>

datatype get_result = GetErr | GetOk "(string \<times> jvalue) list"

type_synonym cluster = "GroupVersionResource \<Rightarrow> string \<Rightarrow> string \<Rightarrow> get_result"

text \<open>The Go \<^verbatim>\<open>error\<close> that \<^verbatim>\<open>checkResourceReady\<close> returns; \<open>None\<close> is \<^verbatim>\<open>nil\<close>.\<close>

datatype ready_error = GetFailed | Accessor accessor_error

text \<open>
  The loop \<^verbatim>\<open>for _, cond := range conditions\<close>: an entry that is not a map is skipped,
  the first entry with type "Ready" and status "True" returns true, and the end of the
  slice returns false. The results of \<^verbatim>\<open>NestedString\<close> other than the string are
  dropped by the source (\<^verbatim>\<open>condType, _, _ :=\<close>).
\<close>

fun conditionsLoop :: "jvalue list \<Rightarrow> bool" where
  "conditionsLoop [] = False"
| "conditionsLoop (cond # conditions) =
     (case cond of
        JMap condMap \<Rightarrow>
          (let condType = fst (NestedString condMap [''type'']);
               condStatus = fst (NestedString condMap [''status''])
           in if condType = ''Ready'' \<and> condStatus = ''True'' then True
              else conditionsLoop conditions)
      | _ \<Rightarrow> conditionsLoop conditions)"

definition checkResourceReady ::
  "'a Monitor_scheme \<Rightarrow> cluster \<Rightarrow> GroupVersionResource \<Rightarrow> bool \<times> ready_error option" where
  "checkResourceReady m cl gvr =
     (case cl gvr (namespace m) (name m) of
        GetErr \<Rightarrow> (False, Some GetFailed)
      | GetOk obj \<Rightarrow>
          (case NestedMap obj [''status''] of
             (status, found, err) \<Rightarrow>
               if \<not> found \<or> err \<noteq> None then (False, map_option Accessor err)
               else (case NestedSlice status [''conditions''] of
                       (conditions, found', err') \<Rightarrow>
                         if \<not> found' \<or> err' \<noteq> None then (False, map_option Accessor err')
                         else (conditionsLoop conditions, None))))"

subsection \<open>Waiting for readiness\<close>

text \<open>
  The errors \<^verbatim>\<open>WaitForReady\<close> returns: the two it formats itself, which carry the kind
  they print, and \<^verbatim>\<open>ctx.Err()\<close> of the caller's context, which is one of the two errors
  of package \<^verbatim>\<open>context\<close>.
\<close>

datatype ctx_error = Canceled | DeadlineExceeded

datatype wait_error = UnsupportedKind string | Timeout string | Cancelled ctx_error

text \<open>The \<^verbatim>\<open>switch m.kind\<close>; \<open>None\<close> is its \<^verbatim>\<open>default\<close> branch.\<close>

definition kindGVR :: "string \<Rightarrow> GroupVersionResource option" where
  "kindGVR k =
     (if k = ''kustomization'' then
        Some \<lparr>Group = ''kustomize.toolkit.fluxcd.io'', Version = ''v1'',
              Resource = ''kustomizations''\<rparr>
      else if k = ''helmrelease'' then
        Some \<lparr>Group = ''helm.toolkit.fluxcd.io'', Version = ''v2beta1'',
              Resource = ''helmreleases''\<rparr>
      else if k = ''source'' \<or> k = ''gitrepository'' then
        Some \<lparr>Group = ''source.toolkit.fluxcd.io'', Version = ''v1'',
              Resource = ''gitrepositories''\<rparr>
      else None)"

text \<open>
  One turn of the \<^verbatim>\<open>select\<close>: the case it takes, with the wall clock at that moment
  (nanoseconds). \<open>CtxDone e\<close> is the caller's context being done with \<^verbatim>\<open>ctx.Err() = e\<close>;
  \<open>TickC cl\<close> is a tick of the ticker, with the cluster as it then answers. Which case a
  \<^verbatim>\<open>select\<close> takes when both are ready is the runtime's choice, so the list of turns is
  an argument.
\<close>

datatype select_case = CtxDone ctx_error | TickC cluster

type_synonym fetch = "GroupVersionResource \<times> string \<times> string"

text \<open>
  The \<^verbatim>\<open>for { select { ... } }\<close> loop over the turns that happen. It returns what the
  function returns (\<open>Inr ()\<close> is \<^verbatim>\<open>nil\<close>), or \<open>None\<close> when the turns end with the loop
  still waiting, and the status fetches made so far, in order.
\<close>

fun waitLoop ::
  "'a Monitor_scheme \<Rightarrow> GroupVersionResource \<Rightarrow> int \<Rightarrow> (int \<times> select_case) list \<Rightarrow>
     fetch list \<Rightarrow> (wait_error + unit) option \<times> fetch list" where
  "waitLoop m gvr deadline [] fetched = (None, fetched)"
| "waitLoop m gvr deadline ((now, CtxDone e) # turns) fetched =
     (Some (Inl (Cancelled e)), fetched)"
| "waitLoop m gvr deadline ((now, TickC cl) # turns) fetched =
     (if now > deadline then (Some (Inl (Timeout (kind m))), fetched)
      else (case checkResourceReady m cl gvr of
              (rdy, err) \<Rightarrow>
                if err \<noteq> None then
                  waitLoop m gvr deadline turns (fetched @ [(gvr, namespace m, name m)])
                else if rdy then (Some (Inr ()), fetched @ [(gvr, namespace m, name m)])
                else waitLoop m gvr deadline turns (fetched @ [(gvr, namespace m, name m)])))"

text \<open>
  \<^verbatim>\<open>WaitForReady(ctx, timeout)\<close>, entered at wall-clock time \<open>start\<close>: the deadline is
  computed first, then the kind is resolved, then the loop runs.
\<close>

definition WaitForReady ::
  "'a Monitor_scheme \<Rightarrow> int \<Rightarrow> int \<Rightarrow> (int \<times> select_case) list \<Rightarrow>
     (wait_error + unit) option \<times> fetch list" where
  "WaitForReady m start timeout turns =
     (let deadline = start + timeout in
      case kindGVR (kind m) of
        None \<Rightarrow> (Some (Inl (UnsupportedKind (kind m))), [])
      | Some gvr \<Rightarrow> waitLoop m gvr deadline turns [])"

subsection \<open>Events and the change detector\<close>

text \<open>
  The fields of \<^verbatim>\<open>corev1.Event\<close> that \<^verbatim>\<open>checkEvents\<close> reads; every other field of an
  event (timestamps, count, source, ...) is the record's extension. The two event types
  are the constants of \<^verbatim>\<open>k8s.io/api/core/v1\<close>.
\<close>

record Event =
  Reason :: string
  Type :: string
  Message :: string

definition EventTypeNormal :: string where
  "EventTypeNormal = ''Normal''"

definition EventTypeWarning :: string where
  "EventTypeWarning = ''Warning''"

text \<open>What \<^verbatim>\<open>clientset.CoreV1().Events(ns).List(...)\<close> hands back: an error, or \<^verbatim>\<open>events.Items\<close>.\<close>

datatype 'a list_result = ListErr | ListOk "'a Event_scheme list"

text \<open>A call of \<^verbatim>\<open>output.PrintEvent(reason, message, isWarning)\<close>.\<close>

datatype output_call = PrintEvent string string bool

text \<open>\<^verbatim>\<open>fmt.Sprintf("%s:%s:%s", evt.Reason, evt.Type, evt.Message)\<close>\<close>

definition eventKey :: "'a Event_scheme \<Rightarrow> string" where
  "eventKey evt = Reason evt @ '':'' @ Type evt @ '':'' @ Message evt"

text \<open>
  \<^verbatim>\<open>for i := len(items) - 1; i >= 0 && i >= len(items)-3; i-- { hash += ... }\<close>.
  The index is a Go \<^verbatim>\<open>int\<close>, which reaches \<open>-1\<close>; it starts at \<open>len(items) - 1\<close> and
  only falls, so \<open>items ! nat i\<close> is read in range.
\<close>

function hashLoop :: "'a Event_scheme list \<Rightarrow> int \<Rightarrow> string \<Rightarrow> string" where
  "hashLoop items i hash =
     (if i \<ge> 0 \<and> i \<ge> int (length items) - 3
      then hashLoop items (i - 1) (hash @ eventKey (items ! nat i))
      else hash)"
  by pat_completeness auto
termination
  by (relation "measure (\<lambda>(items, i, hash). nat (i + 1))") auto

declare hashLoop.simps [simp del]

definition isWarning :: "'a Event_scheme \<Rightarrow> bool" where
  "isWarning evt \<longleftrightarrow>
     Type evt = EventTypeWarning \<or>
     Reason evt = ''HealthCheckFailed'' \<or>
     Reason evt = ''DependencyNotReady''"

text \<open>
  \<^verbatim>\<open>for i := len(items) - 1; i >= 0 && shown < 2; i-- { ...; shown++ }\<close>, with the calls
  of \<^verbatim>\<open>output.PrintEvent\<close> collected in the order they are made.
\<close>

function showLoop :: "'a Event_scheme list \<Rightarrow> int \<Rightarrow> int \<Rightarrow> output_call list \<Rightarrow> output_call list" where
  "showLoop items i shown printed =
     (if i \<ge> 0 \<and> shown < 2
      then showLoop items (i - 1) (shown + 1)
             (printed @ [PrintEvent (Reason (items ! nat i)) (Message (items ! nat i))
                           (isWarning (items ! nat i))])
      else printed)"
  by pat_completeness auto
termination
  by (relation "measure (\<lambda>(items, i, shown, printed). nat (i + 1))") auto

declare showLoop.simps [simp del]

text \<open>
  \<^verbatim>\<open>checkEvents\<close>: the monitor after the call, and the events printed by it. An error of
  the list call and an empty list return at once.
\<close>

definition checkEvents ::
  "'m Monitor_scheme \<Rightarrow> 'a list_result \<Rightarrow> 'm Monitor_scheme \<times> output_call list" where
  "checkEvents m r =
     (case r of
        ListErr \<Rightarrow> (m, [])
      | ListOk items \<Rightarrow>
          if length items = 0 then (m, [])
          else
            let hash = hashLoop items (int (length items) - 1) [] in
            if hash \<noteq> lastHash m
            then (m\<lparr>lastHash := hash\<rparr>, showLoop items (int (length items) - 1) 0 [])
            else (m, []))"

text \<open>
  \<^verbatim>\<open>Watch\<close>: the loop \<^verbatim>\<open>for { select { ... } }\<close> over the turns that happen, each the
  monitor's own context being done or a tick of the ticker with what the list call then
  returns. It gives whether the function has returned, the monitor, and all that was
  printed.
\<close>

datatype 'a watch_case = WatchDone | WatchTick "'a list_result"

fun Watch ::
  "'m Monitor_scheme \<Rightarrow> 'a watch_case list \<Rightarrow> output_call list \<Rightarrow>
     bool \<times> 'm Monitor_scheme \<times> output_call list" where
  "Watch m [] printed = (False, m, printed)"
| "Watch m (WatchDone # turns) printed = (True, m, printed)"
| "Watch m (WatchTick r # turns) printed =
     (case checkEvents m r of (m', out) \<Rightarrow> Watch m' turns (printed @ out))"

section \<open>Notions the properties are stated with\<close>

text \<open>
  A condition entry that reports readiness: a map whose "type" is the string "Ready" and
  whose "status" is the string "True".
\<close>

definition ready_entry :: "jvalue \<Rightarrow> bool" where
  "ready_entry c =
     (case c of
        JMap m \<Rightarrow> map_of m ''type'' = Some (JString ''Ready'') \<and>
                  map_of m ''status'' = Some (JString ''True'')
      | _ \<Rightarrow> False)"

text \<open>The sequence \<open>status.conditions\<close> of a document, when it has one.\<close>

definition status_conditions :: "(string \<times> jvalue) list \<Rightarrow> jvalue list option" where
  "status_conditions obj =
     (case map_of obj ''status'' of
        Some (JMap status) \<Rightarrow>
          (case map_of status ''conditions'' of
             Some (JSlice conditions) \<Rightarrow> Some conditions
           | _ \<Rightarrow> None)
      | _ \<Rightarrow> None)"

definition isMap :: "jvalue \<Rightarrow> bool" where
  "isMap v = (case v of JMap m \<Rightarrow> True | _ \<Rightarrow> False)"

text \<open>A cluster that answers every fetch with the same result.\<close>

definition constCluster :: "get_result \<Rightarrow> cluster" where
  "constCluster r gvr ns n = r"

subsection \<open>Example inputs\<close>

definition m0 :: Monitor where
  "m0 = \<lparr>kind = ''kustomization'', name = ''my-app'', namespace = ''flux-system'',
         lastHash = [], ready = False\<rparr>"

definition gvr0 :: GroupVersionResource where
  "gvr0 = \<lparr>Group = ''kustomize.toolkit.fluxcd.io'', Version = ''v1'',
           Resource = ''kustomizations''\<rparr>"

definition condReadyTrue :: jvalue where
  "condReadyTrue = JMap [(''type'', JString ''Ready''), (''status'', JString ''True'')]"

definition condReadyFalse :: jvalue where
  "condReadyFalse = JMap [(''type'', JString ''Ready''), (''status'', JString ''False'')]"

definition docOf :: "jvalue list \<Rightarrow> (string \<times> jvalue) list" where
  "docOf conditions =
     [(''kind'', JString ''Kustomization''),
      (''status'', JMap [(''observedGeneration'', JNumber 4),
                         (''conditions'', JSlice conditions)])]"

definition docNoStatus :: "(string \<times> jvalue) list" where
  "docNoStatus = [(''kind'', JString ''Kustomization'')]"

definition docNoConditions :: "(string \<times> jvalue) list" where
  "docNoConditions =
     [(''kind'', JString ''Kustomization''),
      (''status'', JMap [(''observedGeneration'', JNumber 4)])]"

text \<open>
  The content of an event that the fingerprint is made of, the \<open>n\<close> most recent items of a
  list (the list's end is its most recent item, as the loops of \<^verbatim>\<open>checkEvents\<close> take
  it), the fingerprint \<^verbatim>\<open>checkEvents\<close> computes, and the call that shows one event.
\<close>

definition content :: "'a Event_scheme \<Rightarrow> string \<times> string \<times> string" where
  "content evt = (Reason evt, Type evt, Message evt)"

definition recent :: "nat \<Rightarrow> 'a list \<Rightarrow> 'a list" where
  "recent n items = take n (rev items)"

definition fingerprint :: "'a Event_scheme list \<Rightarrow> string" where
  "fingerprint items = hashLoop items (int (length items) - 1) []"

definition printOf :: "'a Event_scheme \<Rightarrow> output_call" where
  "printOf evt = PrintEvent (Reason evt) (Message evt) (isWarning evt)"

definition notReadyCluster :: cluster where
  "notReadyCluster = constCluster (GetOk (docOf [condReadyFalse]))"

definition readyCluster :: cluster where
  "readyCluster = constCluster (GetOk (docOf [condReadyTrue]))"

definition mUnsupported :: Monitor where
  "mUnsupported = \<lparr>kind = ''deployment'', name = ''my-app'', namespace = ''flux-system'',
                    lastHash = [], ready = False\<rparr>"

definition evProgressing :: Event where
  "evProgressing = \<lparr>Reason = ''Progressing'', Type = ''Normal'', Message = ''Reconciling''\<rparr>"

definition evSynced :: Event where
  "evSynced = \<lparr>Reason = ''Synced'', Type = ''Normal'', Message = ''ok''\<rparr>"

definition evHealth :: Event where
  "evHealth = \<lparr>Reason = ''HealthCheckFailed'', Type = ''Normal'',
                Message = ''health check failed''\<rparr>"

definition evFailed :: Event where
  "evFailed = \<lparr>Reason = ''ReconciliationFailed'', Type = ''Warning'',
                Message = ''apply failed''\<rparr>"

text \<open>
  Two events whose keys, the newer first, concatenate to the same string as those of
  \<open>evSynced\<close> and \<open>evProgressing\<close>: one letter has moved from the older event's reason
  to the newer event's message.
\<close>

definition evSyncedO :: Event where
  "evSyncedO = \<lparr>Reason = ''Synced'', Type = ''Normal'', Message = ''o''\<rparr>"

definition evKProgressing :: Event where
  "evKProgressing = \<lparr>Reason = ''kProgressing'', Type = ''Normal'', Message = ''Reconciling''\<rparr>"

text \<open>An event with one more of the fields of \<^verbatim>\<open>corev1.Event\<close>, its count.\<close>

record CountedEvent = Event +
  Count :: int

definition evSeen :: "int \<Rightarrow> CountedEvent" where
  "evSeen n = \<lparr>Reason = ''Progressing'', Type = ''Normal'', Message = ''Reconciling'',
                Count = n\<rparr>"

text \<open>
  The kind table as the specification words it: kustomization, helmrelease, source and
  gitrepository, each with its resource, group and version.
\<close>

definition kindTable :: "(string \<times> GroupVersionResource) list" where
  "kindTable =
     [(''kustomization'',
         \<lparr>Group = ''kustomize.toolkit.fluxcd.io'', Version = ''v1'',
          Resource = ''kustomizations''\<rparr>),
      (''helmrelease'',
         \<lparr>Group = ''helm.toolkit.fluxcd.io'', Version = ''v2beta1'',
          Resource = ''helmreleases''\<rparr>),
      (''source'',
         \<lparr>Group = ''source.toolkit.fluxcd.io'', Version = ''v1'',
          Resource = ''gitrepositories''\<rparr>),
      (''gitrepository'',
         \<lparr>Group = ''source.toolkit.fluxcd.io'', Version = ''v1'',
          Resource = ''gitrepositories''\<rparr>)]"

definition mHelm :: Monitor where
  "mHelm = \<lparr>kind = ''helmrelease'', name = ''my-app'', namespace = ''production'',
            lastHash = [], ready = False\<rparr>"

definition gvrHelm :: GroupVersionResource where
  "gvrHelm = \<lparr>Group = ''helm.toolkit.fluxcd.io'', Version = ''v2beta1'',
              Resource = ''helmreleases''\<rparr>"

definition evProgressing2 :: Event where
  "evProgressing2 = \<lparr>Reason = ''Progressing'', Type = ''Normal'',
                      Message = ''Reconciling revision main''\<rparr>"

section \<open>Lemmas about the readiness check\<close>

lemma NestedString_field:
  "fst (NestedString m [f]) = s \<longleftrightarrow>
     (if s = [] then (\<forall>t. map_of m f = Some (JString t) \<longrightarrow> t = [])
      else map_of m f = Some (JString s))"
  by (auto simp: NestedString_def split: option.splits jvalue.splits)

lemma conditionsLoop_iff: "conditionsLoop cs \<longleftrightarrow> (\<exists>c\<in>set cs. ready_entry c)"
  by (induction cs)
    (auto simp: ready_entry_def NestedString_field Let_def split: jvalue.splits)

lemma conditionsLoop_filter: "conditionsLoop (filter isMap cs) = conditionsLoop cs"
  by (induction cs) (auto simp: isMap_def split: jvalue.splits)

lemma checkResourceReady_Some:
  "cl gvr (namespace m) (name m) = GetOk obj \<Longrightarrow> status_conditions obj = Some cs \<Longrightarrow>
   checkResourceReady m cl gvr = (conditionsLoop cs, None)"
  by (auto simp: checkResourceReady_def status_conditions_def NestedMap_def NestedSlice_def
      split: option.splits jvalue.splits)

lemma checkResourceReady_None:
  "cl gvr (namespace m) (name m) = GetOk obj \<Longrightarrow> status_conditions obj = None \<Longrightarrow>
   fst (checkResourceReady m cl gvr) = False"
  by (auto simp: checkResourceReady_def status_conditions_def NestedMap_def NestedSlice_def
      split: option.splits jvalue.splits)

lemma constCluster_get: "constCluster (GetOk obj) gvr (namespace m) (name m) = GetOk obj"
  by (simp add: constCluster_def)

lemma status_conditions_docOf: "status_conditions (docOf cs) = Some cs"
  by (simp add: status_conditions_def docOf_def)

section \<open>Lemmas about the change detector\<close>

lemma rev_take_Suc:
  "i < length xs \<Longrightarrow> rev (take (Suc i) xs) = xs ! i # rev (take i xs)"
  by (simp add: take_Suc_conv_app_nth)

text \<open>The loop from index \<open>i\<close> appends the keys of the items it still visits.\<close>

lemma hashLoop_eq:
  "- 1 \<le> i \<Longrightarrow> i < int (length items) \<Longrightarrow>
   hashLoop items i h =
     h @ concat (map eventKey
           (take (nat (i + 1) - (length items - 3)) (rev (take (nat (i + 1)) items))))"
proof (induction items i h rule: hashLoop.induct)
  case (1 items i h)
  show ?case
  proof (cases "i \<ge> 0 \<and> i \<ge> int (length items) - 3")
    case True
    then have i: "nat (i + 1) = Suc (nat i)" "nat (i - 1 + 1) = nat i" "nat i < length items"
      using "1.prems" by auto
    have d: "Suc (nat i) - (length items - 3) = Suc (nat i - (length items - 3))"
      using True by auto
    from True "1.prems" have "hashLoop items (i - 1) (h @ eventKey (items ! nat i)) =
       (h @ eventKey (items ! nat i)) @
       concat (map eventKey
         (take (nat (i - 1 + 1) - (length items - 3)) (rev (take (nat (i - 1 + 1)) items))))"
      by (intro "1.IH") auto
    with True show ?thesis
      by (subst hashLoop.simps) (simp add: i d rev_take_Suc)
  next
    case False
    then have "nat (i + 1) - (length items - 3) = 0"
      using "1.prems" by auto
    with False show ?thesis
      by (subst hashLoop.simps) auto
  qed
qed

lemma fingerprint_recent: "fingerprint items = concat (map eventKey (recent 3 items))"
proof -
  have "nat (int (length items) - 1 + 1) = length items" by simp
  moreover have "take (length items - (length items - 3)) (rev items) = take 3 (rev items)"
    by (cases "length items \<ge> 3") auto
  ultimately show ?thesis
    using hashLoop_eq [of "int (length items) - 1" items "[]"]
    by (simp add: recent_def fingerprint_def)
qed

lemma showLoop_eq:
  "- 1 \<le> i \<Longrightarrow> i < int (length items) \<Longrightarrow> 0 \<le> shown \<Longrightarrow>
   showLoop items i shown printed =
     printed @ map printOf (take (nat (2 - shown)) (rev (take (nat (i + 1)) items)))"
proof (induction items i shown printed rule: showLoop.induct)
  case (1 items i shown printed)
  show ?case
  proof (cases "i \<ge> 0 \<and> shown < 2")
    case True
    then have i: "nat (i + 1) = Suc (nat i)" "nat (i - 1 + 1) = nat i" "nat i < length items"
      using "1.prems" by auto
    have d: "nat (2 - shown) = Suc (nat (2 - (shown + 1)))"
      using True by auto
    from True "1.prems" have "showLoop items (i - 1) (shown + 1)
             (printed @ [PrintEvent (Reason (items ! nat i)) (Message (items ! nat i))
                           (isWarning (items ! nat i))]) =
       (printed @ [PrintEvent (Reason (items ! nat i)) (Message (items ! nat i))
                           (isWarning (items ! nat i))]) @
       map printOf (take (nat (2 - (shown + 1))) (rev (take (nat (i - 1 + 1)) items)))"
      by (intro "1.IH") auto
    with True show ?thesis
      by (subst showLoop.simps) (simp add: i d rev_take_Suc printOf_def)
  next
    case False
    then have "nat (2 - shown) = 0 \<or> nat (i + 1) = 0"
      using "1.prems" by auto
    with False show ?thesis
      by (subst showLoop.simps) auto
  qed
qed

lemma showLoop_recent:
  "showLoop items (int (length items) - 1) 0 [] = map printOf (recent 2 items)"
  using showLoop_eq [of "int (length items) - 1" items 0 "[]"]
  by (simp add: recent_def)

text \<open>\<^verbatim>\<open>checkEvents\<close> on a list that was fetched, in one equation.\<close>

lemma checkEvents_ListOk:
  "checkEvents m (ListOk items) =
     (if items = [] \<or> fingerprint items = lastHash m then (m, [])
      else (m\<lparr>lastHash := fingerprint items\<rparr>, map printOf (recent 2 items)))"
  by (simp add: checkEvents_def showLoop_recent Let_def fingerprint_def)

lemma eventKey_content:
  "eventKey evt = (case content evt of (r, t, msg) \<Rightarrow> r @ '':'' @ t @ '':'' @ msg)"
  by (simp add: eventKey_def content_def)

lemma map_eventKey_content:
  "map eventKey es = map (\<lambda>(r, t, msg). r @ '':'' @ t @ '':'' @ msg) (map content es)"
  by (simp add: eventKey_content)

text \<open>The fingerprint depends on the content of the three most recent events only.\<close>

lemma fingerprint_content:
  assumes "map content (recent 3 es2) = map content (recent 3 es1)"
  shows "fingerprint es2 = fingerprint es1"
  unfolding fingerprint_recent map_eventKey_content assms ..

lemma recent_map: "map f (recent n es) = recent n (map f es)"
  by (simp add: recent_def take_map rev_map)

lemma set_recent: "set (recent n items) \<subseteq> set items"
  by (auto simp: recent_def dest: in_set_takeD)

lemma lastHash_after_poll:
  "es \<noteq> [] \<Longrightarrow> lastHash (fst (checkEvents m (ListOk es))) = fingerprint es"
  by (simp add: checkEvents_ListOk)

lemma second_poll_emits:
  assumes "es1 \<noteq> []" "es2 \<noteq> []" "fingerprint es2 \<noteq> fingerprint es1"
  shows "checkEvents (fst (checkEvents m (ListOk es1))) (ListOk es2) =
           ((fst (checkEvents m (ListOk es1)))\<lparr>lastHash := fingerprint es2\<rparr>,
            map printOf (recent 2 es2))"
    and "map printOf (recent 2 es2) \<noteq> []"
proof -
  from assms(1) have "lastHash (fst (checkEvents m (ListOk es1))) = fingerprint es1"
    by (rule lastHash_after_poll)
  with assms show "checkEvents (fst (checkEvents m (ListOk es1))) (ListOk es2) =
           ((fst (checkEvents m (ListOk es1)))\<lparr>lastHash := fingerprint es2\<rparr>,
            map printOf (recent 2 es2))"
    by (simp add: checkEvents_ListOk [of _ es2])
  from assms(2) show "map printOf (recent 2 es2) \<noteq> []"
    by (cases es2 rule: rev_cases) (simp_all add: recent_def)
qed

text \<open>A string is split in one way at the first occurrence of a character.\<close>

lemma split_at_first:
  "c \<notin> set xs \<Longrightarrow> c \<notin> set ys \<Longrightarrow> xs @ c # a = ys @ c # b \<Longrightarrow> xs = ys \<and> a = b"
proof (induction xs arbitrary: ys)
  case Nil
  then show ?case by (cases ys) auto
next
  case (Cons x xs)
  then show ?case by (cases ys) auto
qed

lemma key_split:
  assumes "CHR '':'' \<notin> set r1" "CHR '':'' \<notin> set r2"
    and "r1 @ '':'' @ x1 = r2 @ '':'' @ x2"
  shows "r1 = r2 \<and> x1 = x2"
proof -
  from assms(3) have "r1 @ CHR '':'' # x1 = r2 @ CHR '':'' # x2" by simp
  with assms(1,2) show ?thesis by (rule split_at_first)
qed

lemma fingerprint_snoc:
  "fingerprint (xs @ [x]) = eventKey x @ concat (map eventKey (recent 2 xs))"
  by (simp add: fingerprint_recent recent_def)

lemma fingerprint_Cons_newest:
  assumes "es \<noteq> []"
  shows "\<exists>rest. fingerprint es =
           Reason (last es) @ '':'' @ Type (last es) @ '':'' @ Message (last es) @ rest"
proof -
  from assms obtain xs x where es: "es = xs @ [x]"
    by (cases es rule: rev_cases) auto
  have "fingerprint (xs @ [x]) =
          Reason x @ '':'' @ Type x @ '':'' @ Message x @ concat (map eventKey (recent 2 xs))"
    by (simp add: fingerprint_snoc eventKey_def)
  then show ?thesis
    unfolding es by (intro exI [of _ "concat (map eventKey (recent 2 xs))"]) simp
qed

lemma fingerprint_newest_differs:
  assumes ne: "es1 \<noteq> []" "es2 \<noteq> []"
    and c: "CHR '':'' \<notin> set (Reason (last es1))" "CHR '':'' \<notin> set (Type (last es1))"
           "CHR '':'' \<notin> set (Reason (last es2))" "CHR '':'' \<notin> set (Type (last es2))"
    and d: "Reason (last es1) \<noteq> Reason (last es2) \<or> Type (last es1) \<noteq> Type (last es2)"
  shows "fingerprint es1 \<noteq> fingerprint es2"
proof
  assume eq: "fingerprint es1 = fingerprint es2"
  from fingerprint_Cons_newest [OF ne(1)] obtain rest1 where
    f1: "fingerprint es1 =
           Reason (last es1) @ '':'' @ Type (last es1) @ '':'' @ Message (last es1) @ rest1" ..
  from fingerprint_Cons_newest [OF ne(2)] obtain rest2 where
    f2: "fingerprint es2 =
           Reason (last es2) @ '':'' @ Type (last es2) @ '':'' @ Message (last es2) @ rest2" ..
  from eq f1 f2 have
    "Reason (last es1) @ '':'' @ (Type (last es1) @ '':'' @ Message (last es1) @ rest1) =
     Reason (last es2) @ '':'' @ (Type (last es2) @ '':'' @ Message (last es2) @ rest2)"
    by simp
  from key_split [OF c(1) c(3) this] have r: "Reason (last es1) = Reason (last es2)"
    and "Type (last es1) @ '':'' @ (Message (last es1) @ rest1) =
         Type (last es2) @ '':'' @ (Message (last es2) @ rest2)"
    by simp_all
  from key_split [OF c(2) c(4) this(2)] have "Type (last es1) = Type (last es2)" by simp
  with r d show False by simp
qed

lemma fingerprint_single_differs:
  assumes c: "CHR '':'' \<notin> set (Reason e1)" "CHR '':'' \<notin> set (Type e1)"
             "CHR '':'' \<notin> set (Reason e2)" "CHR '':'' \<notin> set (Type e2)"
    and d: "content e1 \<noteq> content e2"
  shows "fingerprint [e1] \<noteq> fingerprint [e2]"
proof
  assume "fingerprint [e1] = fingerprint [e2]"
  then have
    "Reason e1 @ '':'' @ (Type e1 @ '':'' @ Message e1) =
     Reason e2 @ '':'' @ (Type e2 @ '':'' @ Message e2)"
    by (simp add: fingerprint_recent recent_def eventKey_def)
  from key_split [OF c(1) c(3) this] have r: "Reason e1 = Reason e2"
    and "Type e1 @ '':'' @ Message e1 = Type e2 @ '':'' @ Message e2"
    by simp_all
  from key_split [OF c(2) c(4) this(2)] have "Type e1 = Type e2" "Message e1 = Message e2"
    by simp_all
  with r d show False by (simp add: content_def)
qed

text \<open>
  Where two windows first differ, going from the newest event: events with no colon in
  reason and type that differ in one of the two, or in the message with the older events
  equal in content, give different fingerprints.
\<close>

lemma concat_eventKey_content:
  "map content p1 = map content p2 \<Longrightarrow> concat (map eventKey p1) = concat (map eventKey p2)"
  by (simp add: map_eventKey_content)

lemma fingerprint_first_difference:
  assumes w: "recent 3 es1 = p1 @ a # q1" "recent 3 es2 = p2 @ b # q2"
    and p: "map content p1 = map content p2"
    and c: "CHR '':'' \<notin> set (Reason a)" "CHR '':'' \<notin> set (Type a)"
           "CHR '':'' \<notin> set (Reason b)" "CHR '':'' \<notin> set (Type b)"
    and d: "(Reason a, Type a) \<noteq> (Reason b, Type b) \<or>
            Message a \<noteq> Message b \<and> map content q1 = map content q2"
  shows "fingerprint es2 \<noteq> fingerprint es1"
proof
  assume "fingerprint es2 = fingerprint es1"
  then have "concat (map eventKey p1) @ eventKey a @ concat (map eventKey q1) =
             concat (map eventKey p2) @ eventKey b @ concat (map eventKey q2)"
    by (simp add: fingerprint_recent w)
  with concat_eventKey_content [OF p]
  have "eventKey a @ concat (map eventKey q1) = eventKey b @ concat (map eventKey q2)"
    by simp
  then have
    "Reason a @ '':'' @ (Type a @ '':'' @ (Message a @ concat (map eventKey q1))) =
     Reason b @ '':'' @ (Type b @ '':'' @ (Message b @ concat (map eventKey q2)))"
    by (simp add: eventKey_def)
  from key_split [OF c(1) c(3) this] have r: "Reason a = Reason b"
    and "Type a @ '':'' @ (Message a @ concat (map eventKey q1)) =
         Type b @ '':'' @ (Message b @ concat (map eventKey q2))"
    by simp_all
  from key_split [OF c(2) c(4) this(2)] have t: "Type a = Type b"
    and m: "Message a @ concat (map eventKey q1) = Message b @ concat (map eventKey q2)"
    by simp_all
  from d r t have "Message a \<noteq> Message b" and "map content q1 = map content q2"
    by simp_all
  with m concat_eventKey_content [of q1 q2] show False by simp
qed

text \<open>A window that continues another one has another fingerprint.\<close>

lemma fingerprint_extension:
  assumes "extra \<noteq> []"
    and "map content (recent 3 es2) = map content (recent 3 es1) @ extra"
  shows "fingerprint es2 \<noteq> fingerprint es1"
proof -
  let ?k = "\<lambda>(r, t, msg). r @ '':'' @ t @ '':'' @ msg"
  from assms(1) obtain x xs where "extra = x # xs" by (cases extra) auto
  then have n: "concat (map ?k extra) \<noteq> []" by (cases x) simp
  have "fingerprint es2 = concat (map ?k (map content (recent 3 es2)))"
    by (simp only: fingerprint_recent map_eventKey_content)
  also have "\<dots> = concat (map ?k (map content (recent 3 es1))) @ concat (map ?k extra)"
    by (simp only: assms(2) map_append concat_append)
  also have "\<dots> = fingerprint es1 @ concat (map ?k extra)"
    by (simp only: fingerprint_recent map_eventKey_content)
  finally show ?thesis using n by simp
qed

text \<open>A tick on which the list call fails or returns no event can be left out.\<close>

lemma Watch_skip:
  assumes "r = ListErr \<or> r = ListOk []"
  shows "Watch m (pre @ WatchTick r # post) printed = Watch m (pre @ post) printed"
proof (induction pre arbitrary: m printed)
  case Nil
  from assms show ?case by (auto simp: checkEvents_def)
next
  case (Cons t pre)
  show ?case
  proof (cases t)
    case WatchDone
    then show ?thesis by simp
  next
    case (WatchTick r')
    then show ?thesis by (simp add: Cons.IH split: prod.splits)
  qed
qed

section \<open>Lemmas about the wait\<close>

lemma WaitForReady_unsupported:
  "kindGVR (kind m) = None \<Longrightarrow>
   WaitForReady m start timeout turns = (Some (Inl (UnsupportedKind (kind m))), [])"
  by (simp add: WaitForReady_def)

lemma kindGVR_None_iff:
  "kindGVR k = None \<longleftrightarrow>
     k \<notin> {''kustomization'', ''helmrelease'', ''source'', ''gitrepository''}"
  by (simp add: kindGVR_def)

text \<open>A tick, with the two branches that go on waiting taken together.\<close>

lemma waitLoop_TickC:
  "waitLoop m gvr deadline ((now, TickC cl) # turns) fetched =
     (if now > deadline then (Some (Inl (Timeout (kind m))), fetched)
      else if snd (checkResourceReady m cl gvr) = None \<and> fst (checkResourceReady m cl gvr)
      then (Some (Inr ()), fetched @ [(gvr, namespace m, name m)])
      else waitLoop m gvr deadline turns (fetched @ [(gvr, namespace m, name m)]))"
  by (simp split: prod.splits)

lemma waitLoop_fetches:
  "set (snd (waitLoop m gvr deadline turns fetched)) \<subseteq>
     set fetched \<union> {(gvr, namespace m, name m)}"
proof (induction turns arbitrary: fetched)
  case Nil
  show ?case by auto
next
  case (Cons t turns)
  obtain now c where t: "t = (now, c)" by (cases t)
  show ?case
  proof (cases c)
    case (CtxDone e)
    with t show ?thesis by auto
  next
    case (TickC cl)
    with t Cons.IH [of "fetched @ [(gvr, namespace m, name m)]"] show ?thesis
      by (auto simp: waitLoop_TickC simp del: waitLoop.simps)
  qed
qed

text \<open>Turns after which the loop still waits can be followed by more turns.\<close>

lemma waitLoop_append:
  "waitLoop m gvr deadline pre fetched = (None, fetched') \<Longrightarrow>
   waitLoop m gvr deadline (pre @ rest) fetched = waitLoop m gvr deadline rest fetched'"
proof (induction pre arbitrary: fetched)
  case Nil
  then show ?case by simp
next
  case (Cons t pre)
  obtain now c where t: "t = (now, c)" by (cases t)
  show ?case
  proof (cases c)
    case (CtxDone e)
    with t Cons.prems show ?thesis by simp
  next
    case (TickC cl)
    with t Cons.prems Cons.IH [of "fetched @ [(gvr, namespace m, name m)]"] show ?thesis
      by (auto simp: waitLoop_TickC simp del: waitLoop.simps split: if_splits)
  qed
qed

lemma kindGVR_kindTable: "kindGVR k = map_of kindTable k"
  by (simp add: kindGVR_def kindTable_def)

lemma waitLoop_fetched_replicate:
  "\<exists>n. snd (waitLoop m gvr deadline turns fetched) =
         fetched @ replicate n (gvr, namespace m, name m)"
proof (induction turns arbitrary: fetched)
  case Nil
  show ?case by (intro exI [of _ 0]) simp
next
  case (Cons t turns)
  obtain now c where t: "t = (now, c)" by (cases t)
  show ?case
  proof (cases c)
    case (CtxDone e)
    with t show ?thesis by (intro exI [of _ 0]) simp
  next
    case (TickC cl)
    from Cons.IH [of "fetched @ [(gvr, namespace m, name m)]"] obtain n where
      n: "snd (waitLoop m gvr deadline turns (fetched @ [(gvr, namespace m, name m)])) =
            (fetched @ [(gvr, namespace m, name m)]) @ replicate n (gvr, namespace m, name m)" ..
    consider (late) "now > deadline"
      | (rdy) "\<not> now > deadline"
          "snd (checkResourceReady m cl gvr) = None \<and> fst (checkResourceReady m cl gvr)"
      | (go) "\<not> now > deadline"
          "\<not> (snd (checkResourceReady m cl gvr) = None \<and> fst (checkResourceReady m cl gvr))"
      by blast
    then show ?thesis
    proof cases
      case late
      then have "snd (waitLoop m gvr deadline (t # turns) fetched) =
                   fetched @ replicate 0 (gvr, namespace m, name m)"
        by (simp add: t TickC waitLoop_TickC del: waitLoop.simps)
      then show ?thesis ..
    next
      case rdy
      then have "snd (waitLoop m gvr deadline (t # turns) fetched) =
                   fetched @ replicate (Suc 0) (gvr, namespace m, name m)"
        by (simp add: t TickC waitLoop_TickC del: waitLoop.simps)
      then show ?thesis ..
    next
      case go
      then have "waitLoop m gvr deadline (t # turns) fetched =
                   waitLoop m gvr deadline turns (fetched @ [(gvr, namespace m, name m)])"
        unfolding t TickC waitLoop_TickC by (simp only: if_False)
      with n have "snd (waitLoop m gvr deadline (t # turns) fetched) =
                   fetched @ replicate (Suc n) (gvr, namespace m, name m)"
        by simp
      then show ?thesis ..
    qed
  qed
qed

lemma waitLoop_not_unsupported:
  "fst (waitLoop m gvr deadline turns fetched) \<noteq> Some (Inl (UnsupportedKind k))"
proof (induction turns arbitrary: fetched)
  case Nil
  show ?case by simp
next
  case (Cons t turns)
  obtain now c where t: "t = (now, c)" by (cases t)
  show ?case
  proof (cases c)
    case (CtxDone e)
    with t show ?thesis by simp
  next
    case (TickC cl)
    with t Cons.IH [of "fetched @ [(gvr, namespace m, name m)]"] show ?thesis
      by (simp add: waitLoop_TickC del: waitLoop.simps)
  qed
qed

lemma waitLoop_first_tick:
  assumes "now \<le> deadline"
  shows "\<exists>n. snd (waitLoop m gvr deadline ((now, TickC cl) # rest) []) =
           replicate (Suc n) (gvr, namespace m, name m)"
proof -
  from waitLoop_fetched_replicate [of m gvr deadline rest "[(gvr, namespace m, name m)]"]
  obtain n where n: "snd (waitLoop m gvr deadline rest [(gvr, namespace m, name m)]) =
     [(gvr, namespace m, name m)] @ replicate n (gvr, namespace m, name m)" ..
  show ?thesis
  proof (cases "snd (checkResourceReady m cl gvr) = None \<and> fst (checkResourceReady m cl gvr)")
    case True
    with assms show ?thesis
      by (intro exI [of _ 0]) (simp add: waitLoop_TickC del: waitLoop.simps)
  next
    case False
    with assms have "waitLoop m gvr deadline ((now, TickC cl) # rest) [] =
        waitLoop m gvr deadline rest [(gvr, namespace m, name m)]"
      unfolding waitLoop_TickC by auto
    with n show ?thesis
      by (intro exI [of _ n]) simp
  qed
qed

lemma waitLoop_first_tick_ready:
  assumes "now \<le> deadline" "checkResourceReady m cl gvr = (True, None)"
  shows "waitLoop m gvr deadline ((now, TickC cl) # rest) [] =
           (Some (Inr ()), [(gvr, namespace m, name m)])"
  using assms by simp

section \<open>The claims\<close>

text \<open>
  C1. For every status document the fetch returns, the readiness check yields ready = true
  if and only if the document's \<open>status.conditions\<close> sequence contains a map entry whose
  "type" is "Ready" and whose "status" is "True". Such an entry decides the result wherever
  it stands: whatever entries come before it (other Ready-typed entries included) or after
  it, the check returns true with no error.
\<close>

theorem checkResourceReady_iff_ready_entry:
  assumes "cl gvr (namespace m) (name m) = GetOk obj"
  shows "(fst (checkResourceReady m cl gvr) \<longleftrightarrow>
            (\<exists>cs. status_conditions obj = Some cs \<and> (\<exists>c\<in>set cs. ready_entry c))) \<and>
         (\<forall>pre c post. status_conditions obj = Some (pre @ c # post) \<and> ready_entry c \<longrightarrow>
            checkResourceReady m cl gvr = (True, None))"
proof (cases "status_conditions obj")
  case None
  with checkResourceReady_None [of cl gvr m obj, OF assms] show ?thesis by simp
next
  case (Some cs)
  with checkResourceReady_Some [of cl gvr m obj, OF assms] show ?thesis
    by (auto simp: conditionsLoop_iff)
qed

theorem checkResourceReady_iff_ready_entry_witness:
  "constCluster (GetOk (docOf ([condReadyFalse, JString ''stray''] @ condReadyTrue # [condReadyFalse])))
      gvr0 (namespace m0) (name m0) =
     GetOk (docOf ([condReadyFalse, JString ''stray''] @ condReadyTrue # [condReadyFalse])) \<and>
   status_conditions (docOf ([condReadyFalse, JString ''stray''] @ condReadyTrue # [condReadyFalse])) =
     Some ([condReadyFalse, JString ''stray''] @ condReadyTrue # [condReadyFalse]) \<and>
   ready_entry condReadyTrue \<and>
   checkResourceReady m0
     (constCluster (GetOk (docOf ([condReadyFalse, JString ''stray''] @ condReadyTrue # [condReadyFalse]))))
     gvr0 = (True, None)"
proof -
  let ?cs = "[condReadyFalse, JString ''stray''] @ condReadyTrue # [condReadyFalse]"
  let ?cl = "constCluster (GetOk (docOf ?cs))"
  have g: "?cl gvr0 (namespace m0) (name m0) = GetOk (docOf ?cs)"
    by (rule constCluster_get)
  have s: "status_conditions (docOf ?cs) = Some ?cs"
    by (rule status_conditions_docOf)
  have r: "ready_entry condReadyTrue"
    by (simp add: ready_entry_def condReadyTrue_def)
  from checkResourceReady_iff_ready_entry [of ?cl gvr0 m0 "docOf ?cs", OF g]
  have "\<forall>pre c post. status_conditions (docOf ?cs) = Some (pre @ c # post) \<and> ready_entry c \<longrightarrow>
          checkResourceReady m0 ?cl gvr0 = (True, None)"
    by (rule conjunct2)
  with s r have "checkResourceReady m0 ?cl gvr0 = (True, None)" by blast
  with g s r show ?thesis by blast
qed

text \<open>
  A document whose conditions hold a non-map entry next to a Ready/True entry is reported
  ready: the claim C2 as it is worded, that every document with a non-map entry inside
  conditions is treated as not ready yet, fails on it.
\<close>

theorem non_map_entry_document_ready:
  "status_conditions (docOf [JString ''stray'', condReadyTrue]) =
     Some [JString ''stray'', condReadyTrue] \<and>
   \<not> isMap (JString ''stray'') \<and>
   checkResourceReady m0 (constCluster (GetOk (docOf [JString ''stray'', condReadyTrue]))) gvr0 =
     (True, None)"
proof -
  have "checkResourceReady m0 (constCluster (GetOk (docOf [JString ''stray'', condReadyTrue])))
          gvr0 = (True, None)"
    by (simp add: condReadyTrue_def docOf_def checkResourceReady_def constCluster_def
        NestedMap_def NestedSlice_def NestedString_def)
  then show ?thesis
    by (simp add: status_conditions_docOf isMap_def)
qed

text \<open>
  C2, amended. For every status document with a missing "status" key, or with a status map
  that has no "conditions" key, the readiness check returns not ready and no error. A
  non-map entry inside conditions is skipped and never produces an error: the check
  returns what the loop returns on the conditions without their non-map entries, and that
  is not ready when no entry is a map.
\<close>

theorem checkResourceReady_edge_cases:
  assumes "cl gvr (namespace m) (name m) = GetOk obj"
  shows "(map_of obj ''status'' = None \<longrightarrow> checkResourceReady m cl gvr = (False, None)) \<and>
         (\<forall>status. map_of obj ''status'' = Some (JMap status) \<and>
                   map_of status ''conditions'' = None \<longrightarrow>
            checkResourceReady m cl gvr = (False, None)) \<and>
         (\<forall>cs. status_conditions obj = Some cs \<longrightarrow>
            checkResourceReady m cl gvr = (conditionsLoop (filter isMap cs), None) \<and>
            (filter isMap cs = [] \<longrightarrow> checkResourceReady m cl gvr = (False, None)))"
proof (intro conjI allI impI)
  assume "map_of obj ''status'' = None"
  with assms show "checkResourceReady m cl gvr = (False, None)"
    by (simp add: checkResourceReady_def NestedMap_def)
next
  fix status
  assume "map_of obj ''status'' = Some (JMap status) \<and> map_of status ''conditions'' = None"
  with assms show "checkResourceReady m cl gvr = (False, None)"
    by (simp add: checkResourceReady_def NestedMap_def NestedSlice_def)
next
  fix cs
  assume cs: "status_conditions obj = Some cs"
  with checkResourceReady_Some [of cl gvr m obj, OF assms]
  show r: "checkResourceReady m cl gvr = (conditionsLoop (filter isMap cs), None)"
    by (simp add: conditionsLoop_filter)
  assume "filter isMap cs = []"
  with r show "checkResourceReady m cl gvr = (False, None)" by simp
qed

theorem checkResourceReady_edge_cases_witness:
  "map_of docNoStatus ''status'' = None \<and>
   checkResourceReady m0 (constCluster (GetOk docNoStatus)) gvr0 = (False, None) \<and>
   map_of docNoConditions ''status'' = Some (JMap [(''observedGeneration'', JNumber 4)]) \<and>
   map_of [(''observedGeneration'', JNumber 4)] ''conditions'' = None \<and>
   checkResourceReady m0 (constCluster (GetOk docNoConditions)) gvr0 = (False, None) \<and>
   status_conditions (docOf [JString ''stray'', JNumber 1]) = Some [JString ''stray'', JNumber 1] \<and>
   filter isMap [JString ''stray'', JNumber 1] = [] \<and>
   checkResourceReady m0 (constCluster (GetOk (docOf [JString ''stray'', JNumber 1]))) gvr0 =
     (False, None)"
proof -
  have a: "map_of docNoStatus ''status'' = None"
    by (simp add: docNoStatus_def)
  have b: "map_of docNoConditions ''status'' = Some (JMap [(''observedGeneration'', JNumber 4)]) \<and>
           map_of [(''observedGeneration'', JNumber 4)] ''conditions'' = None"
    by (simp add: docNoConditions_def)
  have c: "status_conditions (docOf [JString ''stray'', JNumber 1]) =
             Some [JString ''stray'', JNumber 1]"
    by (rule status_conditions_docOf)
  have d: "filter isMap [JString ''stray'', JNumber 1] = []"
    by (simp add: isMap_def)
  from checkResourceReady_edge_cases
         [of "constCluster (GetOk docNoStatus)" gvr0 m0 docNoStatus, OF constCluster_get] a
  have 1: "checkResourceReady m0 (constCluster (GetOk docNoStatus)) gvr0 = (False, None)"
    by blast
  from checkResourceReady_edge_cases
         [of "constCluster (GetOk docNoConditions)" gvr0 m0 docNoConditions, OF constCluster_get] b
  have 2: "checkResourceReady m0 (constCluster (GetOk docNoConditions)) gvr0 = (False, None)"
    by blast
  from checkResourceReady_edge_cases
         [of "constCluster (GetOk (docOf [JString ''stray'', JNumber 1]))" gvr0 m0
             "docOf [JString ''stray'', JNumber 1]", OF constCluster_get] c d
  have 3: "checkResourceReady m0 (constCluster (GetOk (docOf [JString ''stray'', JNumber 1])))
             gvr0 = (False, None)"
    by blast
  from a b c d 1 2 3 show ?thesis by blast
qed

text \<open>
  C3. When the (reason, severity, message) content of the events is the same in two
  consecutive polls, the second call of \<^verbatim>\<open>checkEvents\<close> prints nothing and leaves the
  monitor as the first call left it. In general, when the fingerprint computed from the
  events equals the stored one, nothing is printed and the stored fingerprint stays.
\<close>

theorem checkEvents_same_content_silent:
  assumes "map content es2 = map content es1"
  shows "checkEvents (fst (checkEvents m (ListOk es1))) (ListOk es2) =
           (fst (checkEvents m (ListOk es1)), []) \<and>
         (fingerprint es2 = lastHash m \<longrightarrow> checkEvents m (ListOk es2) = (m, []))"
proof -
  from assms have "map content (recent 3 es2) = map content (recent 3 es1)"
    by (simp add: recent_map)
  then have fp: "fingerprint es2 = fingerprint es1" by (rule fingerprint_content)
  from assms have "length es2 = length es1" by (rule map_eq_imp_length_eq)
  then have e: "es2 = [] \<longleftrightarrow> es1 = []" by auto
  show ?thesis
  proof (intro conjI impI)
    show "checkEvents (fst (checkEvents m (ListOk es1))) (ListOk es2) =
           (fst (checkEvents m (ListOk es1)), [])"
    proof (cases "es1 = []")
      case True
      with e show ?thesis by (simp add: checkEvents_ListOk)
    next
      case False
      then have "lastHash (fst (checkEvents m (ListOk es1))) = fingerprint es2"
        by (simp add: lastHash_after_poll fp)
      then show ?thesis by (simp add: checkEvents_ListOk [of _ es2])
    qed
  next
    assume "fingerprint es2 = lastHash m"
    then show "checkEvents m (ListOk es2) = (m, [])" by (simp add: checkEvents_ListOk)
  qed
qed

theorem checkEvents_same_content_silent_witness:
  "map content [evSeen 2] = map content [evSeen 1] \<and>
   [evSeen 2] \<noteq> [evSeen 1] \<and>
   snd (checkEvents m0 (ListOk [evSeen 1])) = [PrintEvent ''Progressing'' ''Reconciling'' False] \<and>
   checkEvents (fst (checkEvents m0 (ListOk [evSeen 1]))) (ListOk [evSeen 2]) =
     (fst (checkEvents m0 (ListOk [evSeen 1])), []) \<and>
   fingerprint [evSeen 2] = lastHash (m0\<lparr>lastHash := ''Progressing:Normal:Reconciling''\<rparr>) \<and>
   checkEvents (m0\<lparr>lastHash := ''Progressing:Normal:Reconciling''\<rparr>) (ListOk [evSeen 2]) =
     (m0\<lparr>lastHash := ''Progressing:Normal:Reconciling''\<rparr>, [])"
proof -
  have c: "map content [evSeen 2] = map content [evSeen 1]"
    by (simp add: content_def evSeen_def)
  have n: "[evSeen 2] \<noteq> [evSeen 1]"
    by (simp add: evSeen_def)
  have f: "fingerprint [evSeen 2] = ''Progressing:Normal:Reconciling''"
    by (simp add: fingerprint_recent recent_def eventKey_def evSeen_def)
  have p: "snd (checkEvents m0 (ListOk [evSeen 1])) =
             [PrintEvent ''Progressing'' ''Reconciling'' False]"
    by (simp add: checkEvents_ListOk fingerprint_recent recent_def eventKey_def m0_def
        printOf_def isWarning_def evSeen_def EventTypeWarning_def)
  from checkEvents_same_content_silent [OF c, of m0]
  have 1: "checkEvents (fst (checkEvents m0 (ListOk [evSeen 1]))) (ListOk [evSeen 2]) =
             (fst (checkEvents m0 (ListOk [evSeen 1])), [])"
    by (rule conjunct1)
  from checkEvents_same_content_silent
         [OF c, of "m0\<lparr>lastHash := ''Progressing:Normal:Reconciling''\<rparr>"] f
  have 2: "checkEvents (m0\<lparr>lastHash := ''Progressing:Normal:Reconciling''\<rparr>) (ListOk [evSeen 2]) =
             (m0\<lparr>lastHash := ''Progressing:Normal:Reconciling''\<rparr>, [])"
    by simp
  from c n f p 1 2 show ?thesis by simp
qed

text \<open>
  Two pairs of events that differ in content (one letter stands in the older event's
  reason in one pair and in the newer event's message in the other) and have the same
  fingerprint, so that the second poll prints nothing: the claim C4 as it is worded fails
  on them.
\<close>

theorem fingerprint_collision:
  "[evProgressing, evSynced] \<noteq> [] \<and> [evKProgressing, evSyncedO] \<noteq> [] \<and>
   map content (recent 3 [evProgressing, evSynced]) \<noteq>
     map content (recent 3 [evKProgressing, evSyncedO]) \<and>
   fingerprint [evProgressing, evSynced] = fingerprint [evKProgressing, evSyncedO] \<and>
   snd (checkEvents (fst (checkEvents m0 (ListOk [evProgressing, evSynced])))
          (ListOk [evKProgressing, evSyncedO])) = []"
proof -
  have a: "fingerprint [evProgressing, evSynced] =
             ''Synced:Normal:okProgressing:Normal:Reconciling''"
    by (simp add: fingerprint_recent recent_def eventKey_def evProgressing_def evSynced_def)
  have b: "fingerprint [evKProgressing, evSyncedO] =
             ''Synced:Normal:okProgressing:Normal:Reconciling''"
    by (simp add: fingerprint_recent recent_def eventKey_def evKProgressing_def evSyncedO_def)
  have c: "map content (recent 3 [evProgressing, evSynced]) \<noteq>
             map content (recent 3 [evKProgressing, evSyncedO])"
    by (simp add: recent_def content_def evSynced_def evSyncedO_def)
  have "lastHash (fst (checkEvents m0 (ListOk [evProgressing, evSynced]))) =
          fingerprint [evKProgressing, evSyncedO]"
    by (simp add: lastHash_after_poll a b)
  then have d: "snd (checkEvents (fst (checkEvents m0 (ListOk [evProgressing, evSynced])))
          (ListOk [evKProgressing, evSyncedO])) = []"
    by (simp add: checkEvents_ListOk [of _ "[evKProgressing, evSyncedO]"])
  from a b c d show ?thesis by simp
qed

text \<open>
  C4, amended. For all pairs of non-empty event sequences: the fingerprint is the
  reason:severity:message keys of the last 3 events (fewer if there are fewer) written one
  after the other, the newest first; whenever the fingerprints differ, the content of the
  last 3 events differs and the second poll prints its two most recent events, which is
  some output. A difference in the content of the last 3 events gives different
  fingerprints, and so output, in each of these cases:
  \<^item> the newest events have no colon in reason and severity and differ in one of the two;
  \<^item> going from the newest event, at the first event where the two windows differ both
    events have no colon in reason and severity, and they differ in reason or severity,
    or they differ in message and all older events of the windows are equal in content;
    this holds in particular when one event of the window, at any of its three places, has
    changed and the others have not;
  \<^item> one window continues the other one by further, older events.
  It does not in general, the keys being written with nothing between them.
\<close>

theorem fingerprint_change_emits:
  assumes "es1 \<noteq> []" "es2 \<noteq> []"
  shows "fingerprint es2 =
           concat (map (\<lambda>evt. Reason evt @ '':'' @ Type evt @ '':'' @ Message evt)
                     (take 3 (rev es2))) \<and>
         (fingerprint es2 \<noteq> fingerprint es1 \<longrightarrow>
            map content (recent 3 es2) \<noteq> map content (recent 3 es1) \<and>
            snd (checkEvents (fst (checkEvents m (ListOk es1))) (ListOk es2)) =
              map printOf (recent 2 es2) \<and>
            snd (checkEvents (fst (checkEvents m (ListOk es1))) (ListOk es2)) \<noteq> []) \<and>
         (CHR '':'' \<notin> set (Reason (last es1)) \<union> set (Type (last es1)) \<union>
                        set (Reason (last es2)) \<union> set (Type (last es2)) \<and>
          (Reason (last es1), Type (last es1)) \<noteq> (Reason (last es2), Type (last es2)) \<longrightarrow>
            fingerprint es2 \<noteq> fingerprint es1) \<and>
         (length es1 = 1 \<and> length es2 = 1 \<and>
          CHR '':'' \<notin> set (Reason (last es1)) \<union> set (Type (last es1)) \<union>
                        set (Reason (last es2)) \<union> set (Type (last es2)) \<and>
          map content es1 \<noteq> map content es2 \<longrightarrow>
            fingerprint es2 \<noteq> fingerprint es1) \<and>
         (\<forall>p1 a q1 p2 b q2.
            recent 3 es1 = p1 @ a # q1 \<and> recent 3 es2 = p2 @ b # q2 \<and>
            map content p1 = map content p2 \<and>
            CHR '':'' \<notin> set (Reason a) \<union> set (Type a) \<union> set (Reason b) \<union> set (Type b) \<and>
            ((Reason a, Type a) \<noteq> (Reason b, Type b) \<or>
             Message a \<noteq> Message b \<and> map content q1 = map content q2) \<longrightarrow>
            fingerprint es2 \<noteq> fingerprint es1) \<and>
         (\<forall>extra. extra \<noteq> [] \<and>
            (map content (recent 3 es2) = map content (recent 3 es1) @ extra \<or>
             map content (recent 3 es1) = map content (recent 3 es2) @ extra) \<longrightarrow>
            fingerprint es2 \<noteq> fingerprint es1)"
proof (intro conjI impI allI)
  show "fingerprint es2 =
           concat (map (\<lambda>evt. Reason evt @ '':'' @ Type evt @ '':'' @ Message evt)
                     (take 3 (rev es2)))"
  proof -
    have "map eventKey (take 3 (rev es2)) =
            map (\<lambda>evt. Reason evt @ '':'' @ Type evt @ '':'' @ Message evt) (take 3 (rev es2))"
      by (simp add: eventKey_def)
    then show ?thesis by (simp only: fingerprint_recent recent_def)
  qed
next
  assume d: "fingerprint es2 \<noteq> fingerprint es1"
  then show "map content (recent 3 es2) \<noteq> map content (recent 3 es1)"
    using fingerprint_content [of es2 es1] by blast
  from second_poll_emits(1) [OF assms d, where m = m] second_poll_emits(2) [OF assms d]
  show "snd (checkEvents (fst (checkEvents m (ListOk es1))) (ListOk es2)) =
          map printOf (recent 2 es2)"
    and "snd (checkEvents (fst (checkEvents m (ListOk es1))) (ListOk es2)) \<noteq> []"
    by simp_all
next
  assume "CHR '':'' \<notin> set (Reason (last es1)) \<union> set (Type (last es1)) \<union>
                        set (Reason (last es2)) \<union> set (Type (last es2)) \<and>
          (Reason (last es1), Type (last es1)) \<noteq> (Reason (last es2), Type (last es2))"
  then show "fingerprint es2 \<noteq> fingerprint es1"
    using fingerprint_newest_differs [of es1 es2] assms by auto
next
  assume a: "length es1 = 1 \<and> length es2 = 1 \<and>
          CHR '':'' \<notin> set (Reason (last es1)) \<union> set (Type (last es1)) \<union>
                        set (Reason (last es2)) \<union> set (Type (last es2)) \<and>
          map content es1 \<noteq> map content es2"
  then obtain e1 e2 where e: "es1 = [e1]" "es2 = [e2]"
    by (auto simp: length_Suc_conv)
  with a fingerprint_single_differs [of e1 e2] show "fingerprint es2 \<noteq> fingerprint es1"
    by auto
next
  fix p1 a q1 p2 b q2
  assume h: "recent 3 es1 = p1 @ a # q1 \<and> recent 3 es2 = p2 @ b # q2 \<and>
            map content p1 = map content p2 \<and>
            CHR '':'' \<notin> set (Reason a) \<union> set (Type a) \<union> set (Reason b) \<union> set (Type b) \<and>
            ((Reason a, Type a) \<noteq> (Reason b, Type b) \<or>
             Message a \<noteq> Message b \<and> map content q1 = map content q2)"
  then have "CHR '':'' \<notin> set (Reason a)" "CHR '':'' \<notin> set (Type a)"
    "CHR '':'' \<notin> set (Reason b)" "CHR '':'' \<notin> set (Type b)"
    by simp_all
  with h show "fingerprint es2 \<noteq> fingerprint es1"
    by (intro fingerprint_first_difference [of es1 p1 a q1 es2 p2 b q2]) simp_all
next
  fix extra
  assume h: "extra \<noteq> [] \<and>
            (map content (recent 3 es2) = map content (recent 3 es1) @ extra \<or>
             map content (recent 3 es1) = map content (recent 3 es2) @ extra)"
  then consider "map content (recent 3 es2) = map content (recent 3 es1) @ extra"
    | "map content (recent 3 es1) = map content (recent 3 es2) @ extra"
    by blast
  then show "fingerprint es2 \<noteq> fingerprint es1"
  proof cases
    case 1
    with h show ?thesis by (intro fingerprint_extension [of extra]) simp_all
  next
    case 2
    with h have "fingerprint es1 \<noteq> fingerprint es2"
      by (intro fingerprint_extension [of extra]) simp_all
    then show ?thesis by simp
  qed
qed

theorem fingerprint_change_emits_witness:
  "fingerprint [evProgressing, evFailed] \<noteq> fingerprint [evProgressing] \<and>
   map content (recent 3 [evProgressing, evFailed]) \<noteq> map content (recent 3 [evProgressing]) \<and>
   snd (checkEvents (fst (checkEvents m0 (ListOk [evProgressing])))
          (ListOk [evProgressing, evFailed])) =
     [PrintEvent ''ReconciliationFailed'' ''apply failed'' True,
      PrintEvent ''Progressing'' ''Reconciling'' False] \<and>
   CHR '':'' \<notin> set (Reason evProgressing) \<union> set (Type evProgressing) \<union>
                 set (Reason evSynced) \<union> set (Type evSynced) \<and>
   map content [evProgressing] \<noteq> map content [evSynced] \<and>
   fingerprint [evSynced] \<noteq> fingerprint [evProgressing] \<and>
   recent 3 [evProgressing, evSynced, evFailed] = [evFailed, evSynced] @ evProgressing # [] \<and>
   recent 3 [evProgressing2, evSynced, evFailed] = [evFailed, evSynced] @ evProgressing2 # [] \<and>
   Message evProgressing \<noteq> Message evProgressing2 \<and>
   fingerprint [evProgressing2, evSynced, evFailed] \<noteq>
     fingerprint [evProgressing, evSynced, evFailed] \<and>
   snd (checkEvents (fst (checkEvents m0 (ListOk [evProgressing, evSynced, evFailed])))
          (ListOk [evProgressing2, evSynced, evFailed])) =
     [PrintEvent ''ReconciliationFailed'' ''apply failed'' True,
      PrintEvent ''Synced'' ''ok'' False] \<and>
   map content (recent 3 [evProgressing, evSynced]) =
     map content (recent 3 [evSynced]) @ [content evProgressing] \<and>
   fingerprint [evProgressing, evSynced] \<noteq> fingerprint [evSynced]"
proof -
  have ne: "[evProgressing] \<noteq> []" "[evProgressing, evFailed] \<noteq> []" "[evSynced] \<noteq> []"
    "[evProgressing, evSynced, evFailed] \<noteq> []" "[evProgressing2, evSynced, evFailed] \<noteq> []"
    "[evProgressing, evSynced] \<noteq> []"
    by simp_all
  have c: "CHR '':'' \<notin> set (Reason (last [evProgressing])) \<union> set (Type (last [evProgressing])) \<union>
             set (Reason (last [evProgressing, evFailed])) \<union>
             set (Type (last [evProgressing, evFailed])) \<and>
           (Reason (last [evProgressing]), Type (last [evProgressing])) \<noteq>
           (Reason (last [evProgressing, evFailed]), Type (last [evProgressing, evFailed]))"
    by (simp add: evProgressing_def evFailed_def)
  have s: "length [evProgressing] = 1 \<and> length [evSynced] = 1 \<and>
           CHR '':'' \<notin> set (Reason (last [evProgressing])) \<union> set (Type (last [evProgressing])) \<union>
             set (Reason (last [evSynced])) \<union> set (Type (last [evSynced])) \<and>
           map content [evProgressing] \<noteq> map content [evSynced]"
    by (simp add: evProgressing_def evSynced_def content_def)
  have p: "map printOf (recent 2 [evProgressing, evFailed]) =
     [PrintEvent ''ReconciliationFailed'' ''apply failed'' True,
      PrintEvent ''Progressing'' ''Reconciling'' False]"
    by (simp add: recent_def printOf_def isWarning_def evProgressing_def evFailed_def
        EventTypeWarning_def)
  have p3: "map printOf (recent 2 [evProgressing2, evSynced, evFailed]) =
     [PrintEvent ''ReconciliationFailed'' ''apply failed'' True,
      PrintEvent ''Synced'' ''ok'' False]"
    by (simp add: recent_def printOf_def isWarning_def evSynced_def evFailed_def
        EventTypeWarning_def)
  have w: "recent 3 [evProgressing, evSynced, evFailed] = [evFailed, evSynced] @ evProgressing # []"
    "recent 3 [evProgressing2, evSynced, evFailed] = [evFailed, evSynced] @ evProgressing2 # []"
    by (simp_all add: recent_def)
  have f: "CHR '':'' \<notin> set (Reason evProgressing) \<union> set (Type evProgressing) \<union>
             set (Reason evProgressing2) \<union> set (Type evProgressing2)"
    "Message evProgressing \<noteq> Message evProgressing2"
    by (simp_all add: evProgressing_def evProgressing2_def)
  have x: "map content (recent 3 [evProgressing, evSynced]) =
             map content (recent 3 [evSynced]) @ [content evProgressing]"
    by (simp add: recent_def)
  note t1 = fingerprint_change_emits [OF ne(1) ne(2), of m0]
  note t2 = fingerprint_change_emits [OF ne(1) ne(3), of m0]
  note t3 = fingerprint_change_emits [OF ne(4) ne(5), of m0]
  note t4 = fingerprint_change_emits [OF ne(3) ne(6), of m0]
  from t1 c have d: "fingerprint [evProgressing, evFailed] \<noteq> fingerprint [evProgressing]"
    by blast
  with t1 have r1:
    "map content (recent 3 [evProgressing, evFailed]) \<noteq> map content (recent 3 [evProgressing])"
    "snd (checkEvents (fst (checkEvents m0 (ListOk [evProgressing])))
          (ListOk [evProgressing, evFailed])) = map printOf (recent 2 [evProgressing, evFailed])"
    by blast+
  from t2 s have r2: "fingerprint [evSynced] \<noteq> fingerprint [evProgressing]"
    by blast
  from t3 have "\<forall>p1 a q1 p2 b q2.
            recent 3 [evProgressing, evSynced, evFailed] = p1 @ a # q1 \<and>
            recent 3 [evProgressing2, evSynced, evFailed] = p2 @ b # q2 \<and>
            map content p1 = map content p2 \<and>
            CHR '':'' \<notin> set (Reason a) \<union> set (Type a) \<union> set (Reason b) \<union> set (Type b) \<and>
            ((Reason a, Type a) \<noteq> (Reason b, Type b) \<or>
             Message a \<noteq> Message b \<and> map content q1 = map content q2) \<longrightarrow>
            fingerprint [evProgressing2, evSynced, evFailed] \<noteq>
              fingerprint [evProgressing, evSynced, evFailed]"
    by blast
  from this [rule_format, of "[evFailed, evSynced]" evProgressing "[]" "[evFailed, evSynced]"
      evProgressing2 "[]"] w f
  have r3: "fingerprint [evProgressing2, evSynced, evFailed] \<noteq>
              fingerprint [evProgressing, evSynced, evFailed]"
    by simp
  with t3 have r3': "snd (checkEvents (fst (checkEvents m0 (ListOk [evProgressing, evSynced, evFailed])))
          (ListOk [evProgressing2, evSynced, evFailed])) =
          map printOf (recent 2 [evProgressing2, evSynced, evFailed])"
    by blast
  from t4 have "\<forall>extra. extra \<noteq> [] \<and>
            (map content (recent 3 [evProgressing, evSynced]) =
               map content (recent 3 [evSynced]) @ extra \<or>
             map content (recent 3 [evSynced]) =
               map content (recent 3 [evProgressing, evSynced]) @ extra) \<longrightarrow>
            fingerprint [evProgressing, evSynced] \<noteq> fingerprint [evSynced]"
    by blast
  from this [rule_format, of "[content evProgressing]"] x
  have r4: "fingerprint [evProgressing, evSynced] \<noteq> fingerprint [evSynced]"
    by simp
  from d r1 r2 r3 r3' r4 p p3 s w f x show ?thesis by simp
qed

text \<open>
  C5. The kind is resolved by the switch of \<^verbatim>\<open>WaitForReady\<close>, a function of the kind
  alone that agrees with the table on every string: "kustomization", "helmrelease" and
  "source" map to the coordinates below, "gitrepository" maps as "source" does, and every
  other kind maps to nothing. \<^verbatim>\<open>WaitForReady\<close> returns the unsupported-kind error exactly
  for the kinds outside the table, whatever happens afterwards, and has then fetched no
  status. With a kind of the table, every status fetch is made with the coordinates of
  that kind, the namespace and the name; a first tick within the deadline does fetch
  there, and the wait returns success at once if the answer at those coordinates is ready.
\<close>

theorem kind_resolution:
  "kindGVR k = map_of kindTable k \<and>
   kindGVR ''kustomization'' =
     Some \<lparr>Group = ''kustomize.toolkit.fluxcd.io'', Version = ''v1'',
           Resource = ''kustomizations''\<rparr> \<and>
   kindGVR ''helmrelease'' =
     Some \<lparr>Group = ''helm.toolkit.fluxcd.io'', Version = ''v2beta1'',
           Resource = ''helmreleases''\<rparr> \<and>
   kindGVR ''source'' =
     Some \<lparr>Group = ''source.toolkit.fluxcd.io'', Version = ''v1'',
           Resource = ''gitrepositories''\<rparr> \<and>
   kindGVR ''gitrepository'' = kindGVR ''source'' \<and>
   (\<forall>gvr. kindGVR (kind m) = Some gvr \<longrightarrow>
      set (snd (WaitForReady m start timeout turns)) \<subseteq> {(gvr, namespace m, name m)}) \<and>
   (kind m \<notin> {''kustomization'', ''helmrelease'', ''source'', ''gitrepository''} \<longrightarrow>
      WaitForReady m start timeout turns = (Some (Inl (UnsupportedKind (kind m))), [])) \<and>
   ((\<exists>k'. fst (WaitForReady m start timeout turns) = Some (Inl (UnsupportedKind k'))) \<longleftrightarrow>
      kind m \<notin> {''kustomization'', ''helmrelease'', ''source'', ''gitrepository''}) \<and>
   (\<forall>gvr. (kind m, gvr) \<in> set kindTable \<longrightarrow>
      (\<exists>n. snd (WaitForReady m start timeout turns) = replicate n (gvr, namespace m, name m)) \<and>
      (\<forall>now cl rest. now \<le> start + timeout \<longrightarrow>
         (\<exists>n. snd (WaitForReady m start timeout ((now, TickC cl) # rest)) =
                replicate (Suc n) (gvr, namespace m, name m)) \<and>
         (checkResourceReady m cl gvr = (True, None) \<longrightarrow>
            WaitForReady m start timeout ((now, TickC cl) # rest) =
              (Some (Inr ()), [(gvr, namespace m, name m)]))))"
proof (intro conjI allI impI)
  show "kindGVR k = map_of kindTable k" by (rule kindGVR_kindTable)
next
  fix gvr
  assume "kindGVR (kind m) = Some gvr"
  then show "set (snd (WaitForReady m start timeout turns)) \<subseteq> {(gvr, namespace m, name m)}"
    using waitLoop_fetches [of m gvr "start + timeout" turns "[]"]
    by (simp add: WaitForReady_def)
next
  assume "kind m \<notin> {''kustomization'', ''helmrelease'', ''source'', ''gitrepository''}"
  then have "kindGVR (kind m) = None" by (simp add: kindGVR_None_iff)
  then show "WaitForReady m start timeout turns = (Some (Inl (UnsupportedKind (kind m))), [])"
    by (rule WaitForReady_unsupported)
next
  show "(\<exists>k'. fst (WaitForReady m start timeout turns) = Some (Inl (UnsupportedKind k'))) \<longleftrightarrow>
      kind m \<notin> {''kustomization'', ''helmrelease'', ''source'', ''gitrepository''}"
  proof (cases "kindGVR (kind m)")
    case None
    then have "kind m \<notin> {''kustomization'', ''helmrelease'', ''source'', ''gitrepository''}"
      by (simp add: kindGVR_None_iff)
    with WaitForReady_unsupported [OF None, of start timeout turns] show ?thesis by simp
  next
    case (Some gvr)
    then have "\<not> kind m \<notin> {''kustomization'', ''helmrelease'', ''source'', ''gitrepository''}"
      using kindGVR_None_iff [of "kind m"] by simp
    moreover from Some have "fst (WaitForReady m start timeout turns) \<noteq>
        Some (Inl (UnsupportedKind k'))" for k'
      by (simp add: WaitForReady_def waitLoop_not_unsupported)
    ultimately show ?thesis by blast
  qed
next
  fix gvr
  assume "(kind m, gvr) \<in> set kindTable"
  moreover have "distinct (map fst kindTable)"
    by (simp add: kindTable_def)
  ultimately have "map_of kindTable (kind m) = Some gvr"
    by (intro map_of_is_SomeI)
  then have g: "kindGVR (kind m) = Some gvr"
    by (simp only: kindGVR_kindTable)
  from waitLoop_fetched_replicate [of m gvr "start + timeout" turns "[]"] g
  show "\<exists>n. snd (WaitForReady m start timeout turns) = replicate n (gvr, namespace m, name m)"
    by (simp add: WaitForReady_def)
  fix now cl rest
  assume d: "now \<le> start + timeout"
  from waitLoop_first_tick [OF d, of m gvr cl rest] g
  show "\<exists>n. snd (WaitForReady m start timeout ((now, TickC cl) # rest)) =
                replicate (Suc n) (gvr, namespace m, name m)"
    by (simp add: WaitForReady_def del: waitLoop.simps)
  assume "checkResourceReady m cl gvr = (True, None)"
  from waitLoop_first_tick_ready [OF d this, of rest] g
  show "WaitForReady m start timeout ((now, TickC cl) # rest) =
              (Some (Inr ()), [(gvr, namespace m, name m)])"
    by (simp add: WaitForReady_def del: waitLoop.simps)
qed (simp_all add: kindGVR_def)


theorem kind_resolution_witness:
  "kindGVR (kind m0) = Some gvr0 \<and>
   set (snd (WaitForReady m0 0 10 [(2, TickC notReadyCluster), (4, TickC readyCluster)])) \<subseteq>
     {(gvr0, namespace m0, name m0)} \<and>
   kind mUnsupported \<notin> {''kustomization'', ''helmrelease'', ''source'', ''gitrepository''} \<and>
   WaitForReady mUnsupported 0 10 [(2, TickC notReadyCluster), (4, TickC readyCluster)] =
     (Some (Inl (UnsupportedKind ''deployment'')), []) \<and>
   (kind mHelm, gvrHelm) \<in> set kindTable \<and>
   (2::int) \<le> 0 + 10 \<and>
   checkResourceReady mHelm readyCluster gvrHelm = (True, None) \<and>
   WaitForReady mHelm 0 10 [(2, TickC readyCluster), (4, TickC notReadyCluster)] =
     (Some (Inr ()), [(gvrHelm, ''production'', ''my-app'')]) \<and>
   fst (WaitForReady mHelm 0 10 [(2, TickC readyCluster), (4, TickC notReadyCluster)]) \<noteq>
     Some (Inl (UnsupportedKind ''helmrelease''))"
proof -
  let ?turns = "[(2, TickC notReadyCluster), (4, TickC readyCluster)]"
  have a: "kindGVR (kind m0) = Some gvr0"
    by (simp add: kindGVR_def m0_def gvr0_def)
  have b: "kind mUnsupported \<notin> {''kustomization'', ''helmrelease'', ''source'', ''gitrepository''}"
    by (simp add: mUnsupported_def)
  have k: "kind mUnsupported = ''deployment''"
    by (simp add: mUnsupported_def)
  have h: "(kind mHelm, gvrHelm) \<in> set kindTable"
    by (simp add: mHelm_def gvrHelm_def kindTable_def)
  have hk: "\<not> kind mHelm \<notin> {''kustomization'', ''helmrelease'', ''source'', ''gitrepository''}"
    by (simp add: mHelm_def)
  have nm: "namespace mHelm = ''production''" "name mHelm = ''my-app''"
    by (simp_all add: mHelm_def)
  have d: "(2::int) \<le> 0 + 10" by simp
  have r: "checkResourceReady mHelm readyCluster gvrHelm = (True, None)"
    by (simp add: checkResourceReady_def readyCluster_def constCluster_def docOf_def
        condReadyTrue_def NestedMap_def NestedSlice_def NestedString_def)
  from kind_resolution [of _ m0 0 10 ?turns] a
  have 1: "set (snd (WaitForReady m0 0 10 ?turns)) \<subseteq> {(gvr0, namespace m0, name m0)}"
    by blast
  from kind_resolution [of _ mUnsupported 0 10 ?turns] b
  have "WaitForReady mUnsupported 0 10 ?turns =
          (Some (Inl (UnsupportedKind (kind mUnsupported))), [])"
    by blast
  with k have 2: "WaitForReady mUnsupported 0 10 ?turns =
          (Some (Inl (UnsupportedKind ''deployment'')), [])"
    by simp
  note t = kind_resolution
    [of _ mHelm 0 10 "[(2, TickC readyCluster), (4, TickC notReadyCluster)]"]
  from t h d r
  have "WaitForReady mHelm 0 10 ((2, TickC readyCluster) # [(4, TickC notReadyCluster)]) =
          (Some (Inr ()), [(gvrHelm, namespace mHelm, name mHelm)])"
    by blast
  with nm have 3: "WaitForReady mHelm 0 10 [(2, TickC readyCluster), (4, TickC notReadyCluster)] =
          (Some (Inr ()), [(gvrHelm, ''production'', ''my-app'')])"
    by simp
  from t hk
  have 4: "fst (WaitForReady mHelm 0 10 [(2, TickC readyCluster), (4, TickC notReadyCluster)]) \<noteq>
     Some (Inl (UnsupportedKind ''helmrelease''))"
    by blast
  from a b h d r 1 2 3 4 show ?thesis by blast
qed

text \<open>
  C6. Every event that \<^verbatim>\<open>checkEvents\<close> prints is one of the listed events, printed with
  its reason, its message and a warning flag that is true if and only if the event's type
  is the warning type or its reason is "HealthCheckFailed" or "DependencyNotReady". An
  event with reason "HealthCheckFailed" and the normal type is printed with the flag true.
\<close>

theorem printed_isWarning_iff:
  "(\<exists>shown. set shown \<subseteq> set items \<and>
      snd (checkEvents m (ListOk items)) =
        map (\<lambda>evt. PrintEvent (Reason evt) (Message evt)
                     (Type evt = EventTypeWarning \<or> Reason evt = ''HealthCheckFailed'' \<or>
                      Reason evt = ''DependencyNotReady'')) shown) \<and>
   (Reason e = ''HealthCheckFailed'' \<and> Type e = EventTypeNormal \<and>
    fingerprint [e] \<noteq> lastHash m \<longrightarrow>
      snd (checkEvents m (ListOk [e])) = [PrintEvent ''HealthCheckFailed'' (Message e) True])"
proof (intro conjI impI)
  let ?shown = "if items = [] \<or> fingerprint items = lastHash m then [] else recent 2 items"
  have "set ?shown \<subseteq> set items"
    using set_recent [of 2 items] by simp
  moreover have "snd (checkEvents m (ListOk items)) =
        map (\<lambda>evt. PrintEvent (Reason evt) (Message evt)
                     (Type evt = EventTypeWarning \<or> Reason evt = ''HealthCheckFailed'' \<or>
                      Reason evt = ''DependencyNotReady'')) ?shown"
    by (simp add: checkEvents_ListOk printOf_def isWarning_def)
  ultimately show "\<exists>shown. set shown \<subseteq> set items \<and>
      snd (checkEvents m (ListOk items)) =
        map (\<lambda>evt. PrintEvent (Reason evt) (Message evt)
                     (Type evt = EventTypeWarning \<or> Reason evt = ''HealthCheckFailed'' \<or>
                      Reason evt = ''DependencyNotReady'')) shown"
    by blast
next
  assume "Reason e = ''HealthCheckFailed'' \<and> Type e = EventTypeNormal \<and>
          fingerprint [e] \<noteq> lastHash m"
  then show "snd (checkEvents m (ListOk [e])) =
               [PrintEvent ''HealthCheckFailed'' (Message e) True]"
    by (simp add: checkEvents_ListOk recent_def printOf_def isWarning_def)
qed

theorem printed_isWarning_iff_witness:
  "Reason evHealth = ''HealthCheckFailed'' \<and> Type evHealth = EventTypeNormal \<and>
   fingerprint [evHealth] \<noteq> lastHash m0 \<and>
   snd (checkEvents m0 (ListOk [evHealth])) =
     [PrintEvent ''HealthCheckFailed'' ''health check failed'' True]"
proof -
  have h: "Reason evHealth = ''HealthCheckFailed'' \<and> Type evHealth = EventTypeNormal \<and>
           fingerprint [evHealth] \<noteq> lastHash m0"
    by (simp add: evHealth_def EventTypeNormal_def fingerprint_recent recent_def eventKey_def
        m0_def)
  have m: "Message evHealth = ''health check failed''"
    by (simp add: evHealth_def)
  from printed_isWarning_iff [of "[evHealth]" m0 evHealth] h
  have "snd (checkEvents m0 (ListOk [evHealth])) =
          [PrintEvent ''HealthCheckFailed'' (Message evHealth) True]"
    by blast
  with h m show ?thesis by simp
qed

text \<open>
  C7. Whenever the fingerprint computed from the listed events differs from the stored
  one, \<^verbatim>\<open>checkEvents\<close> prints exactly min(2, number of events) events: the most recent
  ones (the last of the list), the newest first.
\<close>

theorem changed_fingerprint_shows_two_newest:
  assumes "fingerprint items \<noteq> lastHash m"
  shows "snd (checkEvents m (ListOk items)) = map printOf (take 2 (rev items)) \<and>
         length (snd (checkEvents m (ListOk items))) = min 2 (length items)"
  using assms by (auto simp: checkEvents_ListOk recent_def)

theorem changed_fingerprint_shows_two_newest_witness:
  "fingerprint [evProgressing, evSynced, evFailed] \<noteq> lastHash m0 \<and>
   snd (checkEvents m0 (ListOk [evProgressing, evSynced, evFailed])) =
     [PrintEvent ''ReconciliationFailed'' ''apply failed'' True,
      PrintEvent ''Synced'' ''ok'' False] \<and>
   length (snd (checkEvents m0 (ListOk [evProgressing, evSynced, evFailed]))) = 2"
proof -
  have h: "fingerprint [evProgressing, evSynced, evFailed] \<noteq> lastHash m0"
    by (simp add: fingerprint_recent recent_def eventKey_def m0_def evFailed_def)
  have p: "map printOf (take 2 (rev [evProgressing, evSynced, evFailed])) =
     [PrintEvent ''ReconciliationFailed'' ''apply failed'' True,
      PrintEvent ''Synced'' ''ok'' False]"
    by (simp add: printOf_def isWarning_def evFailed_def evSynced_def EventTypeWarning_def)
  from changed_fingerprint_shows_two_newest [OF h] h p show ?thesis by simp
qed

text \<open>
  C8. \<^verbatim>\<open>checkEvents\<close> has no error to return. When the list call fails, and when it
  returns no event, nothing is printed and the monitor, its stored fingerprint included,
  is as it was. So \<^verbatim>\<open>Watch\<close> goes on as if such a tick had not happened.
\<close>

theorem checkEvents_error_or_empty_silent:
  "checkEvents m ListErr = (m, []) \<and> checkEvents m (ListOk []) = (m, []) \<and>
   Watch m (pre @ WatchTick ListErr # post) printed = Watch m (pre @ post) printed \<and>
   Watch m (pre @ WatchTick (ListOk []) # post) printed = Watch m (pre @ post) printed"
proof -
  have "checkEvents m ListErr = (m, [])" "checkEvents m (ListOk []) = (m, [])"
    by (simp_all add: checkEvents_def)
  then show ?thesis by (simp add: Watch_skip)
qed

text \<open>
  C9. When the \<^verbatim>\<open>select\<close> of \<^verbatim>\<open>WaitForReady\<close> takes the case of the caller's context
  being done, after turns that left the loop waiting, the wait returns the context's
  error, a cancelled outcome that is not the timeout error; the time of that turn plays no
  part, so this holds also when the deadline has passed.
\<close>

theorem cancellation_observed_gives_Cancelled:
  assumes "WaitForReady m start timeout pre = (None, fetched)"
  shows "WaitForReady m start timeout (pre @ (now, CtxDone e) # post) =
           (Some (Inl (Cancelled e)), fetched) \<and>
         fst (WaitForReady m start timeout (pre @ (now, CtxDone e) # post)) \<noteq>
           Some (Inl (Timeout (kind m)))"
proof (cases "kindGVR (kind m)")
  case None
  with assms show ?thesis by (simp add: WaitForReady_def)
next
  case (Some gvr)
  with assms have "waitLoop m gvr (start + timeout) pre [] = (None, fetched)"
    by (simp add: WaitForReady_def)
  from waitLoop_append [OF this, of "(now, CtxDone e) # post"] Some
  show ?thesis by (simp add: WaitForReady_def)
qed

theorem cancellation_observed_gives_Cancelled_witness:
  "WaitForReady m0 0 10 [(2, TickC notReadyCluster), (4, TickC (constCluster GetErr))] =
     (None, [(gvr0, ''flux-system'', ''my-app''), (gvr0, ''flux-system'', ''my-app'')]) \<and>
   (0::int) + 10 < 12 \<and>
   WaitForReady m0 0 10
     ([(2, TickC notReadyCluster), (4, TickC (constCluster GetErr))] @
      (12, CtxDone Canceled) # [(14, TickC readyCluster)]) =
     (Some (Inl (Cancelled Canceled)),
      [(gvr0, ''flux-system'', ''my-app''), (gvr0, ''flux-system'', ''my-app'')])"
proof -
  have n: "checkResourceReady m0 notReadyCluster gvr0 = (False, None)"
    by (simp add: checkResourceReady_def notReadyCluster_def constCluster_def docOf_def
        condReadyFalse_def NestedMap_def NestedSlice_def NestedString_def)
  have g: "checkResourceReady m0 (constCluster GetErr) gvr0 = (False, Some GetFailed)"
    by (simp add: checkResourceReady_def constCluster_def)
  have k: "kindGVR (kind m0) = Some gvr0"
    by (simp add: kindGVR_def m0_def gvr0_def)
  have nm: "namespace m0 = ''flux-system''" "name m0 = ''my-app''"
    by (simp_all add: m0_def)
  have h: "WaitForReady m0 0 10 [(2, TickC notReadyCluster), (4, TickC (constCluster GetErr))] =
     (None, [(gvr0, ''flux-system'', ''my-app''), (gvr0, ''flux-system'', ''my-app'')])"
    by (simp add: WaitForReady_def k n g nm)
  from cancellation_observed_gives_Cancelled [OF h, of 12 Canceled "[(14, TickC readyCluster)]"] h
  show ?thesis by simp
qed

text \<open>
  C10. With a kind outside the table, \<^verbatim>\<open>WaitForReady\<close> returns the unsupported-kind
  error before its loop looks at the context or at the deadline: whatever the entry time
  and the timeout are, and whatever turns would follow (the context already done, a tick
  after the deadline), the result is that error, not a cancelled outcome and not the
  timeout error, and no status has been fetched.
\<close>

theorem unsupported_kind_first:
  assumes "kind m \<notin> {''kustomization'', ''helmrelease'', ''source'', ''gitrepository''}"
  shows "WaitForReady m start timeout turns = (Some (Inl (UnsupportedKind (kind m))), []) \<and>
         fst (WaitForReady m start timeout turns) \<noteq> Some (Inl (Cancelled e)) \<and>
         fst (WaitForReady m start timeout turns) \<noteq> Some (Inl (Timeout k))"
proof -
  from assms have "kindGVR (kind m) = None" by (simp add: kindGVR_None_iff)
  from WaitForReady_unsupported [OF this] show ?thesis by simp
qed

theorem unsupported_kind_first_witness:
  "kind mUnsupported \<notin> {''kustomization'', ''helmrelease'', ''source'', ''gitrepository''} \<and>
   (0::int) + 5 < 10 \<and>
   WaitForReady mUnsupported 0 5 [(10, CtxDone Canceled), (12, TickC readyCluster)] =
     (Some (Inl (UnsupportedKind ''deployment'')), []) \<and>
   WaitForReady mUnsupported 0 5 [(10, TickC readyCluster)] =
     (Some (Inl (UnsupportedKind ''deployment'')), [])"
proof -
  have b: "kind mUnsupported \<notin> {''kustomization'', ''helmrelease'', ''source'', ''gitrepository''}"
    by (simp add: mUnsupported_def)
  have k: "kind mUnsupported = ''deployment''"
    by (simp add: mUnsupported_def)
  from unsupported_kind_first [OF b, of 0 5 "[(10, CtxDone Canceled), (12, TickC readyCluster)]"]
    unsupported_kind_first [OF b, of 0 5 "[(10, TickC readyCluster)]"] b k
  show ?thesis by simp
qed

end
